theory Spec2Isabelle
  imports Main "HOL-Library.AList" "HOL-Library.Sublist"
begin

section \<open>The values the store holds\<close>

text \<open>
  \<^verbatim>\<open>TrustStorage\<close> (src/bot/safefolks_bot.py) keeps in \<^verbatim>\<open>self.data\<close> whatever
  \<^verbatim>\<open>json.load\<close> returned, or the literal \<^verbatim>\<open>{"groups": {}, "trusts": []}\<close>. Python
  checks no shape when it loads, so \<^verbatim>\<open>self.data\<close> is modelled as an untyped JSON
  value and every subscript, iteration and method call of the source is a function that
  can raise. A Python \<^verbatim>\<open>dict\<close> keeps its keys in insertion order: it is an
  association list whose keys are distinct, read with \<open>map_of\<close> and written with
  \<open>AList.update\<close> (an existing key keeps its place, a new key goes to the end).
  Numbers are the integers; documents holding fractional numbers are outside the model.
\<close>

datatype json =
    JNull
  | JBool bool
  | JInt int
  | JStr string
  | JArr "json list"
  | JObj "(string \<times> json) list"

datatype py_error = KeyError | TypeError | AttributeError | OSError

text \<open>\<^verbatim>\<open>obj[key]\<close> for a \<^verbatim>\<open>str\<close> key: only a dict answers it.\<close>

fun py_getitem :: "json \<Rightarrow> string \<Rightarrow> py_error + json" where
  "py_getitem (JObj kvs) k = (case map_of kvs k of None \<Rightarrow> Inl KeyError | Some v \<Rightarrow> Inr v)"
| "py_getitem (JArr xs) k = Inl TypeError"
| "py_getitem (JStr s) k = Inl TypeError"
| "py_getitem (JInt i) k = Inl TypeError"
| "py_getitem (JBool b) k = Inl TypeError"
| "py_getitem JNull k = Inl TypeError"

text \<open>\<^verbatim>\<open>obj[key] = value\<close> for a \<^verbatim>\<open>str\<close> key.\<close>

fun py_setitem :: "json \<Rightarrow> string \<Rightarrow> json \<Rightarrow> py_error + json" where
  "py_setitem (JObj kvs) k v = Inr (JObj (AList.update k v kvs))"
| "py_setitem (JArr xs) k v = Inl TypeError"
| "py_setitem (JStr s) k v = Inl TypeError"
| "py_setitem (JInt i) k v = Inl TypeError"
| "py_setitem (JBool b) k v = Inl TypeError"
| "py_setitem JNull k v = Inl TypeError"

text \<open>
  \<^verbatim>\<open>for x in obj\<close>: a list gives its elements, a dict its keys, a string its
  characters (each a string of length one); nothing else is iterable.
\<close>

fun py_iter :: "json \<Rightarrow> py_error + json list" where
  "py_iter (JArr xs) = Inr xs"
| "py_iter (JObj kvs) = Inr (map (\<lambda>kv. JStr (fst kv)) kvs)"
| "py_iter (JStr s) = Inr (map (\<lambda>c. JStr [c]) s)"
| "py_iter (JInt i) = Inl TypeError"
| "py_iter (JBool b) = Inl TypeError"
| "py_iter JNull = Inl TypeError"

text \<open>\<^verbatim>\<open>obj.append(x)\<close>: only a list has the method.\<close>

fun py_append :: "json \<Rightarrow> json \<Rightarrow> py_error + json" where
  "py_append (JArr xs) x = Inr (JArr (xs @ [x]))"
| "py_append (JObj kvs) x = Inl AttributeError"
| "py_append (JStr s) x = Inl AttributeError"
| "py_append (JInt i) x = Inl AttributeError"
| "py_append (JBool b) x = Inl AttributeError"
| "py_append JNull x = Inl AttributeError"

text \<open>
  \<^verbatim>\<open>value == n\<close> for an \<^verbatim>\<open>int\<close> argument \<open>n\<close>: \<^verbatim>\<open>bool\<close> is a subclass of
  \<^verbatim>\<open>int\<close> in Python (\<^verbatim>\<open>True == 1\<close>), every other kind of value differs from
  every integer.
\<close>

fun py_eq_int :: "json \<Rightarrow> int \<Rightarrow> bool" where
  "py_eq_int (JInt i) n = (i = n)"
| "py_eq_int (JBool b) n = (n = (if b then 1 else 0))"
| "py_eq_int (JStr s) n = False"
| "py_eq_int (JArr xs) n = False"
| "py_eq_int (JObj kvs) n = False"
| "py_eq_int JNull n = False"

subsection \<open>\<^verbatim>\<open>str(int)\<close>\<close>

definition digit_char :: "nat \<Rightarrow> char" where
  "digit_char d = ''0123456789'' ! d"

fun nat_digits :: "nat \<Rightarrow> string" where
  "nat_digits n = (if n < 10 then [digit_char n] else nat_digits (n div 10) @ [digit_char (n mod 10)])"

declare nat_digits.simps [simp del]

text \<open>Python prints an integer in decimal, with a leading minus sign when negative.\<close>

definition py_str :: "int \<Rightarrow> string" where
  "py_str i = (if i < 0 then CHR ''-'' # nat_digits (nat (- i)) else nat_digits (nat i))"

section \<open>The store and its backing file\<close>

text \<open>
  The file at \<^verbatim>\<open>self.data_file\<close> is modelled by what \<^verbatim>\<open>_load_data\<close> can
  observe of it: \<^verbatim>\<open>exists()\<close> itself raises \<^verbatim>\<open>OSError\<close> (a directory of the path
  cannot be searched, a name is too long); it does not exist; it exists but
  \<^verbatim>\<open>open\<close> or \<^verbatim>\<open>json.load\<close> raises on it; or \<^verbatim>\<open>json.load\<close> returns a
  value. The model takes from Python's
  \<^verbatim>\<open>json\<close> module that a document written by \<^verbatim>\<open>json.dump\<close> is read back by
  \<^verbatim>\<open>json.load\<close> as the value that was written (strings, integers, lists and dicts
  with string keys, in order).
\<close>

datatype file_state = Inaccessible | Missing | Unreadable | Holds json

text \<open>
  \<open>writes\<close> is a ghost counter: how many times the file has been opened for writing.
\<close>

record store =
  data :: json
  data_file :: file_state
  writes :: nat

definition empty_ledger :: json where
  "empty_ledger = JObj [(''groups'', JObj []), (''trusts'', JArr [])]"

text \<open>
  \<^verbatim>\<open>_load_data\<close>: the call of \<^verbatim>\<open>exists()\<close> stands before the \<^verbatim>\<open>try\<close>, so
  what it raises leaves the function. The \<^verbatim>\<open>except Exception\<close> branch and the
  branch for a file that does not exist both return the empty ledger. The file is only
  read.
\<close>

fun load_data :: "file_state \<Rightarrow> py_error + json" where
  "load_data Inaccessible = Inl OSError"
| "load_data Missing = Inr empty_ledger"
| "load_data Unreadable = Inr empty_ledger"
| "load_data (Holds j) = Inr j"

text \<open>\<^verbatim>\<open>__init__\<close>: an exception of \<^verbatim>\<open>_load_data\<close> leaves the constructor.\<close>

definition TrustStorage :: "file_state \<Rightarrow> py_error + store" where
  "TrustStorage f =
     (case load_data f of
        Inl e \<Rightarrow> Inl e
      | Inr d \<Rightarrow> Inr \<lparr>data = d, data_file = f, writes = 0\<rparr>)"

text \<open>
  What the operating system does with one write of the file is an input of the model:
  the write goes through, or it raises and leaves the file in the given state (as it
  was, truncated, or written in part). \<^verbatim>\<open>_save_data\<close> catches the exception and
  logs it, so it always returns.
\<close>

datatype save_outcome = SaveOk | SaveFails file_state

fun save_data :: "save_outcome \<Rightarrow> store \<Rightarrow> store" where
  "save_data SaveOk s = s\<lparr>data_file := Holds (data s), writes := Suc (writes s)\<rparr>"
| "save_data (SaveFails f) s = s\<lparr>data_file := f, writes := Suc (writes s)\<rparr>"

text \<open>
  \<^verbatim>\<open>add_group\<close>. \<open>now\<close> is \<^verbatim>\<open>datetime.now().isoformat()\<close>. The inner dict is
  mutated in place in Python; in the model the updated inner dict is put back under
  \<^verbatim>\<open>"groups"\<close>, where it already was.
\<close>

definition group_record :: "string \<Rightarrow> string \<Rightarrow> int \<Rightarrow> string \<Rightarrow> json" where
  "group_record now group_name owner_id owner_name =
     JObj [(''name'', JStr group_name), (''owner_id'', JInt owner_id),
           (''owner_name'', JStr owner_name), (''added_at'', JStr now)]"

definition add_group ::
  "string \<Rightarrow> save_outcome \<Rightarrow> int \<Rightarrow> string \<Rightarrow> int \<Rightarrow> string \<Rightarrow> store \<Rightarrow> py_error + store" where
  "add_group now io group_id group_name owner_id owner_name s =
     (let group_id_str = py_str group_id in
      case py_getitem (data s) ''groups'' of
        Inl e \<Rightarrow> Inl e
      | Inr gs \<Rightarrow>
          (case py_setitem gs group_id_str (group_record now group_name owner_id owner_name) of
             Inl e \<Rightarrow> Inl e
           | Inr gs' \<Rightarrow>
               (case py_setitem (data s) ''groups'' gs' of
                  Inl e \<Rightarrow> Inl e
                | Inr d \<Rightarrow> Inr (save_data io (s\<lparr>data := d\<rparr>)))))"

text \<open>
  \<^verbatim>\<open>add_trust\<close>. The condition of the loop is a chain of \<^verbatim>\<open>and\<close>: a later
  subscript is evaluated only when the earlier comparisons were true.
\<close>

definition trust_record :: "string \<Rightarrow> int \<Rightarrow> int \<Rightarrow> string \<Rightarrow> int \<Rightarrow> string \<Rightarrow> json" where
  "trust_record now group_id truster_id truster_name trustee_id trustee_name =
     JObj [(''group_id'', JInt group_id), (''truster_id'', JInt truster_id),
           (''truster_name'', JStr truster_name), (''trustee_id'', JInt trustee_id),
           (''trustee_name'', JStr trustee_name), (''created_at'', JStr now)]"

definition key_matches :: "json \<Rightarrow> int \<Rightarrow> int \<Rightarrow> int \<Rightarrow> py_error + bool" where
  "key_matches trust group_id truster_id trustee_id =
     (case py_getitem trust ''group_id'' of
        Inl e \<Rightarrow> Inl e
      | Inr x \<Rightarrow>
          if \<not> py_eq_int x group_id then Inr False
          else (case py_getitem trust ''truster_id'' of
                  Inl e \<Rightarrow> Inl e
                | Inr y \<Rightarrow>
                    if \<not> py_eq_int y truster_id then Inr False
                    else (case py_getitem trust ''trustee_id'' of
                            Inl e \<Rightarrow> Inl e
                          | Inr z \<Rightarrow> Inr (py_eq_int z trustee_id))))"

text \<open>The \<^verbatim>\<open>for trust in self.data["trusts"]\<close> loop: does it reach its \<^verbatim>\<open>return\<close>?\<close>

fun trust_exists :: "json list \<Rightarrow> int \<Rightarrow> int \<Rightarrow> int \<Rightarrow> py_error + bool" where
  "trust_exists [] g a b = Inr False"
| "trust_exists (t # ts) g a b =
     (case key_matches t g a b of
        Inl e \<Rightarrow> Inl e
      | Inr found \<Rightarrow> if found then Inr True else trust_exists ts g a b)"

definition add_trust ::
  "string \<Rightarrow> save_outcome \<Rightarrow> int \<Rightarrow> int \<Rightarrow> string \<Rightarrow> int \<Rightarrow> string \<Rightarrow> store \<Rightarrow> py_error + store" where
  "add_trust now io group_id truster_id truster_name trustee_id trustee_name s =
     (case py_getitem (data s) ''trusts'' of
        Inl e \<Rightarrow> Inl e
      | Inr ts \<Rightarrow>
          (case py_iter ts of
             Inl e \<Rightarrow> Inl e
           | Inr items \<Rightarrow>
               (case trust_exists items group_id truster_id trustee_id of
                  Inl e \<Rightarrow> Inl e
                | Inr found \<Rightarrow>
                    if found then Inr s
                    else (case py_append ts
                                 (trust_record now group_id truster_id truster_name
                                    trustee_id trustee_name) of
                            Inl e \<Rightarrow> Inl e
                          | Inr ts' \<Rightarrow>
                              (case py_setitem (data s) ''trusts'' ts' of
                                 Inl e \<Rightarrow> Inl e
                               | Inr d \<Rightarrow> Inr (save_data io (s\<lparr>data := d\<rparr>)))))))"

text \<open>
  The comprehension \<^verbatim>\<open>[t for t in xs if t[field] == n]\<close>: the elements are visited in
  order and the first subscript that raises ends it.
\<close>

fun select_by :: "string \<Rightarrow> int \<Rightarrow> json list \<Rightarrow> py_error + json list" where
  "select_by field n [] = Inr []"
| "select_by field n (t # ts) =
     (case py_getitem t field of
        Inl e \<Rightarrow> Inl e
      | Inr x \<Rightarrow>
          (case select_by field n ts of
             Inl e \<Rightarrow> Inl e
           | Inr r \<Rightarrow> Inr (if py_eq_int x n then t # r else r)))"

text \<open>
  \<^verbatim>\<open>get_group_trusts\<close> and \<^verbatim>\<open>get_user_trusts\<close> return their list together with the
  store they leave behind.
\<close>

definition get_group_trusts :: "int \<Rightarrow> store \<Rightarrow> py_error + (json list \<times> store)" where
  "get_group_trusts group_id s =
     (case py_getitem (data s) ''trusts'' of
        Inl e \<Rightarrow> Inl e
      | Inr ts \<Rightarrow>
          (case py_iter ts of
             Inl e \<Rightarrow> Inl e
           | Inr items \<Rightarrow>
               (case select_by ''group_id'' group_id items of
                  Inl e \<Rightarrow> Inl e
                | Inr r \<Rightarrow> Inr (r, s))))"

definition get_user_trusts :: "int \<Rightarrow> store \<Rightarrow> py_error + (json list \<times> store)" where
  "get_user_trusts user_id s =
     (case py_getitem (data s) ''trusts'' of
        Inl e \<Rightarrow> Inl e
      | Inr ts \<Rightarrow>
          (case py_iter ts of
             Inl e \<Rightarrow> Inl e
           | Inr items \<Rightarrow>
               (case select_by ''truster_id'' user_id items of
                  Inl e \<Rightarrow> Inl e
                | Inr r \<Rightarrow> Inr (r, s))))"

text \<open>
  A session of the store: the mutating calls it receives, in order. An exception ends the
  session, as it ends a script that makes the calls one after the other.
\<close>

datatype call =
    AddGroup string save_outcome int string int string
  | AddTrust string save_outcome int int string int string

fun exec :: "call \<Rightarrow> store \<Rightarrow> py_error + store" where
  "exec (AddGroup now io group_id group_name owner_id owner_name) s =
     add_group now io group_id group_name owner_id owner_name s"
| "exec (AddTrust now io group_id truster_id truster_name trustee_id trustee_name) s =
     add_trust now io group_id truster_id truster_name trustee_id trustee_name s"

fun run :: "call list \<Rightarrow> store \<Rightarrow> py_error + store" where
  "run [] s = Inr s"
| "run (c # cs) s = (case exec c s of Inl e \<Rightarrow> Inl e | Inr s' \<Rightarrow> run cs s')"

text \<open>A session on a file: the constructor, then the calls.\<close>

definition session :: "file_state \<Rightarrow> call list \<Rightarrow> py_error + store" where
  "session f cs = (case TrustStorage f of Inl e \<Rightarrow> Inl e | Inr s \<Rightarrow> run cs s)"

fun saved :: "call \<Rightarrow> bool" where
  "saved (AddGroup now io group_id group_name owner_id owner_name) = (io = SaveOk)"
| "saved (AddTrust now io group_id truster_id truster_name trustee_id trustee_name) = (io = SaveOk)"

section \<open>The ledger as the specification reads it\<close>

text \<open>
  The two collections of the ledger, and the typed fields of an entry. These are views
  used to state the properties; the operations above never call them.
\<close>

definition groups_of :: "json \<Rightarrow> (string \<times> json) list" where
  "groups_of d = (case py_getitem d ''groups'' of Inr (JObj gs) \<Rightarrow> gs | _ \<Rightarrow> [])"

definition trusts_of :: "json \<Rightarrow> json list" where
  "trusts_of d = (case py_getitem d ''trusts'' of Inr (JArr ts) \<Rightarrow> ts | _ \<Rightarrow> [])"

fun int_field :: "string \<Rightarrow> json \<Rightarrow> int option" where
  "int_field f (JObj kvs) = (case map_of kvs f of Some (JInt i) \<Rightarrow> Some i | _ \<Rightarrow> None)"
| "int_field f j = None"

fun str_field :: "string \<Rightarrow> json \<Rightarrow> string option" where
  "str_field f (JObj kvs) = (case map_of kvs f of Some (JStr x) \<Rightarrow> Some x | _ \<Rightarrow> None)"
| "str_field f j = None"

text \<open>The natural key of a trust edge: (group_id, truster_id, trustee_id).\<close>

definition edge_key :: "json \<Rightarrow> (int \<times> int \<times> int) option" where
  "edge_key t =
     (case int_field ''group_id'' t of
        None \<Rightarrow> None
      | Some g \<Rightarrow>
          (case int_field ''truster_id'' t of
             None \<Rightarrow> None
           | Some a \<Rightarrow>
               (case int_field ''trustee_id'' t of
                  None \<Rightarrow> None
                | Some b \<Rightarrow> Some (g, a, b))))"

text \<open>
  The shape of the persisted document (section 6 of the specification): an object whose
  \<^verbatim>\<open>groups\<close> is an object of group records and whose \<^verbatim>\<open>trusts\<close> is an array of
  trust edges, each with its integer and string fields.
\<close>

definition is_trust_edge :: "json \<Rightarrow> bool" where
  "is_trust_edge t =
     (edge_key t \<noteq> None \<and> str_field ''truster_name'' t \<noteq> None \<and>
      str_field ''trustee_name'' t \<noteq> None \<and> str_field ''created_at'' t \<noteq> None)"

definition is_group :: "json \<Rightarrow> bool" where
  "is_group j =
     (str_field ''name'' j \<noteq> None \<and> int_field ''owner_id'' j \<noteq> None \<and>
      str_field ''owner_name'' j \<noteq> None \<and> str_field ''added_at'' j \<noteq> None)"

definition ledger_shaped :: "json \<Rightarrow> bool" where
  "ledger_shaped d =
     (py_getitem d ''groups'' = Inr (JObj (groups_of d)) \<and>
      py_getitem d ''trusts'' = Inr (JArr (trusts_of d)) \<and>
      distinct (map fst (groups_of d)) \<and>
      list_all is_group (map snd (groups_of d)) \<and>
      list_all is_trust_edge (trusts_of d))"

text \<open>A file the store can work on: none, an unreadable one, or a ledger-shaped document.\<close>

fun loadable :: "file_state \<Rightarrow> bool" where
  "loadable (Holds j) = ledger_shaped j"
| "loadable Missing = True"
| "loadable Unreadable = True"
| "loadable Inaccessible = False"

subsection \<open>Decimal strings\<close>

text \<open>
  The integer a string of digits denotes, read digit by digit from the character codes
  (\<^verbatim>\<open>int(k)\<close> on such a string), and the strings that are the decimal form of an
  integer: digits only, at least one, no leading zero unless the string is \<^verbatim>\<open>0\<close>, with
  an optional minus sign before a number that is not zero. Neither is defined through
  \<open>py_str\<close>.
\<close>

definition digit_val :: "char \<Rightarrow> nat" where
  "digit_val c = of_char c - 48"

definition nat_of_digits :: "string \<Rightarrow> nat" where
  "nat_of_digits ds = foldl (\<lambda>n c. 10 * n + digit_val c) 0 ds"

fun py_int :: "string \<Rightarrow> int" where
  "py_int [] = 0"
| "py_int (c # ds) =
     (if c = CHR ''-'' then - int (nat_of_digits ds) else int (nat_of_digits (c # ds)))"

definition is_digit :: "char \<Rightarrow> bool" where
  "is_digit c = (48 \<le> (of_char c :: nat) \<and> (of_char c :: nat) \<le> 57)"

definition digits_ok :: "string \<Rightarrow> bool" where
  "digits_ok ds = (ds \<noteq> [] \<and> list_all is_digit ds \<and> (ds = ''0'' \<or> hd ds \<noteq> CHR ''0''))"

fun is_decimal :: "string \<Rightarrow> bool" where
  "is_decimal [] = False"
| "is_decimal (c # ds) =
     (if c = CHR ''-'' then digits_ok ds \<and> ds \<noteq> ''0'' else digits_ok (c # ds))"

text \<open>
  The asymmetry of the persisted layout: groups are keyed by decimal strings, trust edges
  carry \<^verbatim>\<open>group_id\<close> as an integer.
\<close>

definition asymmetric :: "json \<Rightarrow> bool" where
  "asymmetric d =
     (list_all is_decimal (map fst (groups_of d)) \<and>
      list_all (\<lambda>t. int_field ''group_id'' t \<noteq> None) (trusts_of d))"

section \<open>Decimal strings determine their integer\<close>

lemma digit_cases:
  "(d::nat) < 10 \<Longrightarrow>
   d = 0 \<or> d = 1 \<or> d = 2 \<or> d = 3 \<or> d = 4 \<or> d = 5 \<or> d = 6 \<or> d = 7 \<or> d = 8 \<or> d = 9"
  by arith

lemma digit_val_digit_char: "d < 10 \<Longrightarrow> digit_val (digit_char d) = d"
  by (drule digit_cases) (auto simp: digit_val_def digit_char_def)

lemma nat_of_digits_snoc: "nat_of_digits (ds @ [c]) = 10 * nat_of_digits ds + digit_val c"
  by (simp add: nat_of_digits_def)

lemma nat_of_digits_nat_digits: "nat_of_digits (nat_digits n) = n"
proof (induction n rule: nat_digits.induct)
  case (1 n)
  show ?case
  proof (cases "n < 10")
    case True
    then show ?thesis
      by (subst nat_digits.simps) (simp add: nat_of_digits_def digit_val_digit_char)
  next
    case False
    with 1 show ?thesis
      by (subst nat_digits.simps) (simp add: nat_of_digits_snoc digit_val_digit_char)
  qed
qed

lemma digit_char_not_minus: "d < 10 \<Longrightarrow> digit_char d \<noteq> CHR ''-''"
  by (drule digit_cases) (auto simp: digit_char_def)

lemma nat_digits_hd: "\<exists>d cs. d < 10 \<and> nat_digits n = digit_char d # cs"
proof (induction n rule: nat_digits.induct)
  case (1 n)
  show ?case
  proof (cases "n < 10")
    case True
    then show ?thesis by (subst nat_digits.simps) auto
  next
    case False
    with 1 obtain d cs where "d < 10" "nat_digits (n div 10) = digit_char d # cs" by auto
    with False show ?thesis by (subst nat_digits.simps) auto
  qed
qed

lemma py_int_py_str: "py_int (py_str i) = i"
proof (cases "i < 0")
  case True
  then show ?thesis by (simp add: py_str_def nat_of_digits_nat_digits)
next
  case False
  obtain d cs where d: "d < 10" "nat_digits (nat i) = digit_char d # cs"
    using nat_digits_hd by blast
  have "nat_of_digits (digit_char d # cs) = nat i"
    using nat_of_digits_nat_digits [of "nat i"] d by simp
  with False d show ?thesis
    by (simp add: py_str_def digit_char_not_minus)
qed

lemma py_str_inj: "py_str i = py_str j \<Longrightarrow> i = j"
proof -
  assume "py_str i = py_str j"
  then have "py_int (py_str i) = py_int (py_str j)" by simp
  then show "i = j" by (simp only: py_int_py_str)
qed

lemma is_digit_digit_char: "d < 10 \<Longrightarrow> is_digit (digit_char d)"
  by (drule digit_cases) (auto simp: is_digit_def digit_char_def)

lemma digit_char_zero: "d < 10 \<Longrightarrow> digit_char d = CHR ''0'' \<Longrightarrow> d = 0"
  by (drule digit_cases) (auto simp: digit_char_def)

lemma nat_digits_nonempty: "nat_digits n \<noteq> []"
  using nat_digits_hd [of n] by auto

lemma nat_digits_digits: "list_all is_digit (nat_digits n)"
proof (induction n rule: nat_digits.induct)
  case (1 n)
  show ?case
  proof (cases "n < 10")
    case True
    then show ?thesis by (subst nat_digits.simps) (simp add: is_digit_digit_char)
  next
    case False
    with 1 show ?thesis by (subst nat_digits.simps) (simp add: is_digit_digit_char)
  qed
qed

lemma nat_digits_hd_zero: "hd (nat_digits n) = CHR ''0'' \<Longrightarrow> n = 0"
proof (induction n rule: nat_digits.induct)
  case (1 n)
  show ?case
  proof (cases "n < 10")
    case True
    with "1.prems" show ?thesis
      by (subst (asm) nat_digits.simps) (simp add: digit_char_zero)
  next
    case False
    with "1.prems" have "hd (nat_digits (n div 10)) = CHR ''0''"
      by (subst (asm) nat_digits.simps) (simp add: nat_digits_nonempty)
    with 1 False have "n div 10 = 0" by simp
    with False show ?thesis by simp
  qed
qed

lemma nat_digits_0: "nat_digits 0 = ''0''"
  by (simp add: nat_digits.simps digit_char_def)

lemma digits_ok_nat_digits: "digits_ok (nat_digits n)"
proof (cases "hd (nat_digits n) = CHR ''0''")
  case True
  then have "n = 0" by (rule nat_digits_hd_zero)
  then show ?thesis by (simp add: digits_ok_def nat_digits_0 is_digit_def)
next
  case False
  then show ?thesis by (simp add: digits_ok_def nat_digits_nonempty nat_digits_digits)
qed

lemma nat_digits_positive: "0 < n \<Longrightarrow> nat_digits n \<noteq> ''0''"
proof
  assume "0 < n" and "nat_digits n = ''0''"
  then have "hd (nat_digits n) = CHR ''0''" by simp
  then have "n = 0" by (rule nat_digits_hd_zero)
  with \<open>0 < n\<close> show False by simp
qed

lemma is_decimal_py_str: "is_decimal (py_str i)"
proof (cases "i < 0")
  case True
  then show ?thesis
    by (simp add: py_str_def digits_ok_nat_digits nat_digits_positive)
next
  case False
  obtain d cs where d: "d < 10" "nat_digits (nat i) = digit_char d # cs"
    using nat_digits_hd by blast
  from digits_ok_nat_digits [of "nat i"] d have "digits_ok (digit_char d # cs)" by simp
  with False d show ?thesis
    by (simp add: py_str_def digit_char_not_minus)
qed

section \<open>The operations on a ledger-shaped document\<close>

lemma groups_of_eq: "py_getitem d ''groups'' = Inr (JObj gs) \<Longrightarrow> groups_of d = gs"
  by (simp add: groups_of_def)

lemma trusts_of_eq: "py_getitem d ''trusts'' = Inr (JArr ts) \<Longrightarrow> trusts_of d = ts"
  by (simp add: trusts_of_def)

lemma py_getitem_setitem:
  "py_setitem d k v = Inr d' \<Longrightarrow> py_getitem d' k' = (if k' = k then Inr v else py_getitem d k')"
  by (cases d) (auto simp: update_conv')

lemma py_setitem_ok: "py_getitem d k = Inr v \<Longrightarrow> \<exists>d'. py_setitem d k v' = Inr d'"
  by (cases d) auto

lemma int_field_getitem:
  "int_field f t = Some i \<Longrightarrow> py_getitem t f = Inr (JInt i)"
  by (cases t) (auto split: option.splits json.splits)

lemma key_matches_edge:
  assumes "is_trust_edge t"
  shows "key_matches t g a b = Inr (edge_key t = Some (g, a, b))"
proof -
  from assms obtain g' a' b' where
    f: "int_field ''group_id'' t = Some g'" "int_field ''truster_id'' t = Some a'"
       "int_field ''trustee_id'' t = Some b'"
    by (auto simp: is_trust_edge_def edge_key_def split: option.splits)
  then show ?thesis
    by (simp add: key_matches_def edge_key_def int_field_getitem)
qed

lemma trust_exists_edges:
  "list_all is_trust_edge ts \<Longrightarrow>
   trust_exists ts g a b = Inr (Some (g, a, b) \<in> edge_key ` set ts)"
  by (induction ts) (auto simp: key_matches_edge)

lemma select_by_filter:
  "list_all (\<lambda>t. int_field f t \<noteq> None) ts \<Longrightarrow>
   select_by f n ts = Inr (filter (\<lambda>t. int_field f t = Some n) ts)"
proof (induction ts)
  case Nil
  then show ?case by simp
next
  case (Cons t ts)
  then obtain i where "int_field f t = Some i" by auto
  with Cons show ?case by (simp add: int_field_getitem)
qed

lemma is_trust_edge_fields:
  "is_trust_edge t \<Longrightarrow> int_field ''group_id'' t \<noteq> None \<and> int_field ''truster_id'' t \<noteq> None \<and> int_field ''trustee_id'' t \<noteq> None"
  by (auto simp: is_trust_edge_def edge_key_def split: option.splits)

lemma is_trust_edge_record: "is_trust_edge (trust_record now g a an b bn)"
  by (simp add: is_trust_edge_def edge_key_def trust_record_def)

lemma edge_key_record: "edge_key (trust_record now g a an b bn) = Some (g, a, b)"
  by (simp add: edge_key_def trust_record_def)

lemma is_group_record: "is_group (group_record now n ow own)"
  by (simp add: is_group_def group_record_def)

lemma ledger_shaped_empty: "ledger_shaped empty_ledger"
  by (simp add: ledger_shaped_def empty_ledger_def groups_of_def trusts_of_def)

text \<open>add_trust on a ledger-shaped document\<close>

lemma add_trust_found:
  assumes "ledger_shaped (data s)" and "Some (g, a, b) \<in> edge_key ` set (trusts_of (data s))"
  shows "add_trust now io g a an b bn s = Inr s"
  using assms by (simp add: add_trust_def ledger_shaped_def trust_exists_edges)

lemma add_trust_new:
  assumes "ledger_shaped (data s)" and "Some (g, a, b) \<notin> edge_key ` set (trusts_of (data s))"
  shows "\<exists>d. py_setitem (data s) ''trusts''
              (JArr (trusts_of (data s) @ [trust_record now g a an b bn])) = Inr d \<and>
             add_trust now io g a an b bn s = Inr (save_data io (s\<lparr>data := d\<rparr>))"
proof -
  from assms(1) have t: "py_getitem (data s) ''trusts'' = Inr (JArr (trusts_of (data s)))"
    and e: "list_all is_trust_edge (trusts_of (data s))"
    by (simp_all add: ledger_shaped_def)
  from py_setitem_ok [OF t] obtain d where
    d: "py_setitem (data s) ''trusts'' (JArr (trusts_of (data s) @ [trust_record now g a an b bn])) = Inr d"
    by blast
  with t e assms(2) show ?thesis
    by (simp add: add_trust_def trust_exists_edges)
qed

lemma setitem_trusts_shape:
  assumes "ledger_shaped d" and "py_setitem d ''trusts'' (JArr ts) = Inr d'"
    and "list_all is_trust_edge ts"
  shows "ledger_shaped d' \<and> trusts_of d' = ts \<and> groups_of d' = groups_of d"
proof -
  have g: "py_getitem d' ''groups'' = py_getitem d ''groups''"
    using assms(2) by (simp add: py_getitem_setitem)
  have t: "py_getitem d' ''trusts'' = Inr (JArr ts)"
    using assms(2) by (simp add: py_getitem_setitem)
  have gs: "groups_of d' = groups_of d" using g by (simp add: groups_of_def)
  have ts: "trusts_of d' = ts" using t by (rule trusts_of_eq)
  show ?thesis using assms(1,3) g t gs ts by (simp add: ledger_shaped_def)
qed

lemma setitem_groups_shape:
  assumes "ledger_shaped d" and "py_setitem d ''groups'' (JObj gs) = Inr d'"
    and "distinct (map fst gs)" and "list_all is_group (map snd gs)"
  shows "ledger_shaped d' \<and> groups_of d' = gs \<and> trusts_of d' = trusts_of d"
proof -
  have t: "py_getitem d' ''trusts'' = py_getitem d ''trusts''"
    using assms(2) by (simp add: py_getitem_setitem)
  have g: "py_getitem d' ''groups'' = Inr (JObj gs)"
    using assms(2) by (simp add: py_getitem_setitem)
  have ts: "trusts_of d' = trusts_of d" using t by (simp add: trusts_of_def)
  have gs: "groups_of d' = gs" using g by (rule groups_of_eq)
  show ?thesis using assms(1,3,4) g t gs ts by (simp add: ledger_shaped_def)
qed

lemma add_group_shaped:
  assumes "ledger_shaped (data s)"
  shows "\<exists>d. py_setitem (data s) ''groups''
              (JObj (AList.update (py_str g) (group_record now n ow own) (groups_of (data s)))) = Inr d \<and>
             add_group now io g n ow own s = Inr (save_data io (s\<lparr>data := d\<rparr>))"
proof -
  from assms have t: "py_getitem (data s) ''groups'' = Inr (JObj (groups_of (data s)))"
    by (simp add: ledger_shaped_def)
  from py_setitem_ok [OF t] obtain d where
    d: "py_setitem (data s) ''groups''
          (JObj (AList.update (py_str g) (group_record now n ow own) (groups_of (data s)))) = Inr d"
    by blast
  with t show ?thesis by (simp add: add_group_def)
qed

lemma data_save_data: "data (save_data io s) = data s"
  by (cases io) simp_all

lemma writes_save_data: "writes (save_data io s) = Suc (writes s)"
  by (cases io) simp_all

lemma filter_key_absent:
  "Some k \<notin> edge_key ` set ts \<Longrightarrow> filter (\<lambda>t. edge_key t = Some k) ts = []"
  by (induction ts) auto

lemma trusts_of_empty: "trusts_of empty_ledger = []"
  by (simp add: trusts_of_def empty_ledger_def)

lemma groups_of_empty: "groups_of empty_ledger = []"
  by (simp add: groups_of_def empty_ledger_def)

lemma open_missing:
  "TrustStorage Missing = Inr \<lparr>data = empty_ledger, data_file = Missing, writes = 0\<rparr>"
  by (simp add: TrustStorage_def)

lemma open_holds:
  "TrustStorage (Holds j) = Inr \<lparr>data = j, data_file = Holds j, writes = 0\<rparr>"
  by (simp add: TrustStorage_def)

text \<open>
  Claim C1. On a ledger-shaped store, \<^verbatim>\<open>add_trust\<close> (the specification's
  \<^verbatim>\<open>record_trust\<close>) with a key (group_id, truster_id, trustee_id) that some edge
  already has returns the store as it was: data, file and write counter. With a key no
  edge has, it appends exactly one edge at the end of the trusts: the edge has that key,
  the two names of the call and the time of the call. The groups are left alone and the
  file is written once (it then holds the whole ledger when the write goes through).
  A second call with the same key, whatever its names and time, changes nothing: one
  edge has the key, and it carries the first call's names and time.
\<close>

theorem add_trust_idempotent:
  assumes "ledger_shaped (data s)"
  shows "(Some (g, a, b) \<in> edge_key ` set (trusts_of (data s)) \<longrightarrow>
            add_trust now io g a an b bn s = Inr s) \<and>
         (Some (g, a, b) \<notin> edge_key ` set (trusts_of (data s)) \<longrightarrow>
            (\<exists>s' e. add_trust now io g a an b bn s = Inr s' \<and>
                  trusts_of (data s') = trusts_of (data s) @ [e] \<and>
                  e = trust_record now g a an b bn \<and>
                  edge_key e = Some (g, a, b) \<and>
                  int_field ''group_id'' e = Some g \<and>
                  int_field ''truster_id'' e = Some a \<and>
                  int_field ''trustee_id'' e = Some b \<and>
                  str_field ''truster_name'' e = Some an \<and>
                  str_field ''trustee_name'' e = Some bn \<and>
                  str_field ''created_at'' e = Some now \<and>
                  groups_of (data s') = groups_of (data s) \<and>
                  writes s' = Suc (writes s) \<and>
                  (io = SaveOk \<longrightarrow> data_file s' = Holds (data s')) \<and>
                  add_trust now' io' g a an' b bn' s' = Inr s' \<and>
                  filter (\<lambda>t. edge_key t = Some (g, a, b)) (trusts_of (data s')) = [e]))"
proof (intro conjI impI)
  assume "Some (g, a, b) \<in> edge_key ` set (trusts_of (data s))"
  with assms show "add_trust now io g a an b bn s = Inr s" by (rule add_trust_found)
next
  assume new: "Some (g, a, b) \<notin> edge_key ` set (trusts_of (data s))"
  let ?r = "trust_record now g a an b bn"
  from add_trust_new [OF assms new] obtain d where
    d: "py_setitem (data s) ''trusts'' (JArr (trusts_of (data s) @ [?r])) = Inr d"
    and r: "add_trust now io g a an b bn s = Inr (save_data io (s\<lparr>data := d\<rparr>))"
    by blast
  let ?s' = "save_data io (s\<lparr>data := d\<rparr>)"
  have edges: "list_all is_trust_edge (trusts_of (data s) @ [?r])"
    using assms by (simp add: ledger_shaped_def is_trust_edge_record)
  from setitem_trusts_shape [OF assms d edges]
  have sh: "ledger_shaped d" and ts: "trusts_of d = trusts_of (data s) @ [?r]"
    and gs: "groups_of d = groups_of (data s)" by simp_all
  have ds: "data ?s' = d" by (simp add: data_save_data)
  have again: "add_trust now' io' g a an' b bn' ?s' = Inr ?s'"
    by (rule add_trust_found) (simp_all add: ds sh ts edge_key_record)
  have one: "filter (\<lambda>t. edge_key t = Some (g, a, b)) (trusts_of (data ?s')) = [?r]"
    using new by (simp add: ds ts edge_key_record filter_key_absent)
  have fl: "io = SaveOk \<longrightarrow> data_file ?s' = Holds (data ?s')" by auto
  have ints: "int_field ''group_id'' ?r = Some g \<and> int_field ''truster_id'' ?r = Some a \<and>
      int_field ''trustee_id'' ?r = Some b"
    by (simp add: trust_record_def)
  have strs: "str_field ''truster_name'' ?r = Some an \<and> str_field ''trustee_name'' ?r = Some bn \<and>
      str_field ''created_at'' ?r = Some now"
    by (simp add: trust_record_def)
  have w: "writes ?s' = Suc (writes s)" by (simp add: writes_save_data)
  have k: "edge_key ?r = Some (g, a, b)" by (rule edge_key_record)
  have t': "trusts_of (data ?s') = trusts_of (data s) @ [?r]" by (simp add: ds ts)
  have g': "groups_of (data ?s') = groups_of (data s)" by (simp add: ds gs)
  from r t' k ints strs g' w fl again one
  show "\<exists>s' e. add_trust now io g a an b bn s = Inr s' \<and>
          trusts_of (data s') = trusts_of (data s) @ [e] \<and>
          e = ?r \<and>
          edge_key e = Some (g, a, b) \<and>
          int_field ''group_id'' e = Some g \<and>
          int_field ''truster_id'' e = Some a \<and>
          int_field ''trustee_id'' e = Some b \<and>
          str_field ''truster_name'' e = Some an \<and>
          str_field ''trustee_name'' e = Some bn \<and>
          str_field ''created_at'' e = Some now \<and>
          groups_of (data s') = groups_of (data s) \<and>
          writes s' = Suc (writes s) \<and>
          (io = SaveOk \<longrightarrow> data_file s' = Holds (data s')) \<and>
          add_trust now' io' g a an' b bn' s' = Inr s' \<and>
          filter (\<lambda>t. edge_key t = Some (g, a, b)) (trusts_of (data s')) = [e]"
    by (intro exI [of _ ?s'] exI [of _ ?r]) blast
qed

theorem add_trust_idempotent_witness:
  "\<exists>s0. TrustStorage Missing = Inr s0 \<and> ledger_shaped (data s0) \<and>
     (\<exists>s'. add_trust ''t1'' SaveOk (-123456) 111111 ''Owner'' 222222 ''Member'' s0 = Inr s' \<and>
         trusts_of (data s') =
           [JObj [(''group_id'', JInt (-123456)), (''truster_id'', JInt 111111),
                  (''truster_name'', JStr ''Owner''), (''trustee_id'', JInt 222222),
                  (''trustee_name'', JStr ''Member''), (''created_at'', JStr ''t1'')]] \<and>
         writes s' = 1 \<and>
         add_trust ''t2'' SaveOk (-123456) 111111 ''Boss'' 222222 ''Pal'' s' = Inr s')"
proof -
  let ?s0 = "\<lparr>data = empty_ledger, data_file = Missing, writes = 0\<rparr>"
  have sh: "ledger_shaped (data ?s0)" by (simp add: ledger_shaped_empty)
  have new: "Some (-123456, 111111, 222222) \<notin> edge_key ` set (trusts_of (data ?s0))"
    by (simp add: trusts_of_empty)
  from add_trust_idempotent [OF sh, of "-123456" 111111 222222 "''t1''" SaveOk "''Owner''"
      "''Member''" "''t2''" SaveOk "''Boss''" "''Pal''"] new
  obtain s' where "add_trust ''t1'' SaveOk (-123456) 111111 ''Owner'' 222222 ''Member'' ?s0 = Inr s'"
    and "trusts_of (data s') = trusts_of (data ?s0) @
      [trust_record ''t1'' (-123456) 111111 ''Owner'' 222222 ''Member'']"
    and "writes s' = Suc (writes ?s0)"
    and "add_trust ''t2'' SaveOk (-123456) 111111 ''Boss'' 222222 ''Pal'' s' = Inr s'"
    by blast
  with sh open_missing show ?thesis
    by (auto simp: trusts_of_empty trust_record_def)
qed

lemma edges_have_field:
  "list_all is_trust_edge ts \<Longrightarrow>
   list_all (\<lambda>t. int_field ''group_id'' t \<noteq> None) ts \<and>
   list_all (\<lambda>t. int_field ''truster_id'' t \<noteq> None) ts"
  by (induction ts) (auto dest: is_trust_edge_fields)

text \<open>
  Claim C4. On a ledger-shaped store, \<^verbatim>\<open>get_group_trusts\<close> (the specification's
  \<^verbatim>\<open>trusts_for_group\<close>) returns the trusts filtered by \<^verbatim>\<open>group_id\<close>: every edge of
  that group and no edge of another, in the order of the ledger, whatever groups the
  edges in between belong to. The store it leaves is the store it was given.
\<close>

theorem get_group_trusts_exact:
  assumes "ledger_shaped (data s)"
  shows "\<exists>r. get_group_trusts g s = Inr (r, s) \<and>
             r = filter (\<lambda>t. int_field ''group_id'' t = Some g) (trusts_of (data s)) \<and>
             subseq r (trusts_of (data s)) \<and>
             list_all (\<lambda>t. int_field ''group_id'' t = Some g) r"
proof -
  from assms have t: "py_getitem (data s) ''trusts'' = Inr (JArr (trusts_of (data s)))"
    and e: "list_all is_trust_edge (trusts_of (data s))"
    by (simp_all add: ledger_shaped_def)
  from edges_have_field [OF e]
  have "list_all (\<lambda>t. int_field ''group_id'' t \<noteq> None) (trusts_of (data s))"
    by (rule conjunct1)
  then have "select_by ''group_id'' g (trusts_of (data s)) =
      Inr (filter (\<lambda>t. int_field ''group_id'' t = Some g) (trusts_of (data s)))"
    by (rule select_by_filter)
  with t show ?thesis
    by (simp add: get_group_trusts_def list_all_iff)
qed

theorem get_group_trusts_exact_witness:
  "\<exists>s0. TrustStorage (Holds (JObj [(''groups'', JObj []), (''trusts'', JArr
      [trust_record ''t0'' (-111) 100 ''Owner1'' 200 ''Member1'',
       trust_record ''t1'' (-222) 300 ''Owner2'' 400 ''Member3'',
       trust_record ''t2'' (-111) 100 ''Owner1'' 201 ''Member2''])])) = Inr s0 \<and>
     ledger_shaped (data s0) \<and>
     map_sum id fst (get_group_trusts (-111) s0) =
       Inr [trust_record ''t0'' (-111) 100 ''Owner1'' 200 ''Member1'',
            trust_record ''t2'' (-111) 100 ''Owner1'' 201 ''Member2'']"
proof -
  let ?d = "JObj [(''groups'', JObj []), (''trusts'', JArr
      [trust_record ''t0'' (-111) 100 ''Owner1'' 200 ''Member1'',
       trust_record ''t1'' (-222) 300 ''Owner2'' 400 ''Member3'',
       trust_record ''t2'' (-111) 100 ''Owner1'' 201 ''Member2''])]"
  let ?s0 = "\<lparr>data = ?d, data_file = Holds ?d, writes = 0\<rparr>"
  have sh: "ledger_shaped (data ?s0)"
    by (simp add: ledger_shaped_def groups_of_def trusts_of_def is_trust_edge_record)
  have ts: "trusts_of ?d =
      [trust_record ''t0'' (-111) 100 ''Owner1'' 200 ''Member1'',
       trust_record ''t1'' (-222) 300 ''Owner2'' 400 ''Member3'',
       trust_record ''t2'' (-111) 100 ''Owner1'' 201 ''Member2'']"
    by (simp add: trusts_of_def)
  have f: "\<And>now g a an b bn. int_field ''group_id'' (trust_record now g a an b bn) = Some g"
    by (simp add: trust_record_def)
  from get_group_trusts_exact [OF sh, of "-111"] sh
  have "ledger_shaped (data ?s0) \<and>
     map_sum id fst (get_group_trusts (-111) ?s0) =
       Inr [trust_record ''t0'' (-111) 100 ''Owner1'' 200 ''Member1'',
            trust_record ''t2'' (-111) 100 ''Owner1'' 201 ''Member2'']"
    by (auto simp: ts f)
  with open_holds [of ?d] show ?thesis by blast
qed

text \<open>
  Claim C5. On a ledger-shaped store, \<^verbatim>\<open>get_user_trusts\<close> (the specification's
  \<^verbatim>\<open>trusts_from_user\<close>) returns the trusts filtered by \<^verbatim>\<open>truster_id\<close>, from every
  group, in the order of the ledger, and leaves the store as it was given.
\<close>

theorem get_user_trusts_exact:
  assumes "ledger_shaped (data s)"
  shows "\<exists>r. get_user_trusts u s = Inr (r, s) \<and>
             r = filter (\<lambda>t. int_field ''truster_id'' t = Some u) (trusts_of (data s)) \<and>
             subseq r (trusts_of (data s)) \<and>
             list_all (\<lambda>t. int_field ''truster_id'' t = Some u) r"
proof -
  from assms have t: "py_getitem (data s) ''trusts'' = Inr (JArr (trusts_of (data s)))"
    and e: "list_all is_trust_edge (trusts_of (data s))"
    by (simp_all add: ledger_shaped_def)
  from edges_have_field [OF e]
  have "list_all (\<lambda>t. int_field ''truster_id'' t \<noteq> None) (trusts_of (data s))"
    by (rule conjunct2)
  then have "select_by ''truster_id'' u (trusts_of (data s)) =
      Inr (filter (\<lambda>t. int_field ''truster_id'' t = Some u) (trusts_of (data s)))"
    by (rule select_by_filter)
  with t show ?thesis
    by (simp add: get_user_trusts_def list_all_iff)
qed

theorem get_user_trusts_exact_witness:
  "\<exists>s0. TrustStorage (Holds (JObj [(''groups'', JObj []), (''trusts'', JArr
      [trust_record ''t0'' (-111) 100 ''Owner1'' 200 ''Member1'',
       trust_record ''t1'' (-222) 300 ''Owner2'' 400 ''Member3'',
       trust_record ''t2'' (-333) 100 ''Owner1'' 201 ''Member2''])])) = Inr s0 \<and>
     ledger_shaped (data s0) \<and>
     map_sum id fst (get_user_trusts (100) s0) =
       Inr [trust_record ''t0'' (-111) 100 ''Owner1'' 200 ''Member1'',
            trust_record ''t2'' (-333) 100 ''Owner1'' 201 ''Member2'']"
proof -
  let ?d = "JObj [(''groups'', JObj []), (''trusts'', JArr
      [trust_record ''t0'' (-111) 100 ''Owner1'' 200 ''Member1'',
       trust_record ''t1'' (-222) 300 ''Owner2'' 400 ''Member3'',
       trust_record ''t2'' (-333) 100 ''Owner1'' 201 ''Member2''])]"
  let ?s0 = "\<lparr>data = ?d, data_file = Holds ?d, writes = 0\<rparr>"
  have sh: "ledger_shaped (data ?s0)"
    by (simp add: ledger_shaped_def groups_of_def trusts_of_def is_trust_edge_record)
  have ts: "trusts_of ?d =
      [trust_record ''t0'' (-111) 100 ''Owner1'' 200 ''Member1'',
       trust_record ''t1'' (-222) 300 ''Owner2'' 400 ''Member3'',
       trust_record ''t2'' (-333) 100 ''Owner1'' 201 ''Member2'']"
    by (simp add: trusts_of_def)
  have f: "\<And>now g a an b bn. int_field ''truster_id'' (trust_record now g a an b bn) = Some a"
    by (simp add: trust_record_def)
  from get_user_trusts_exact [OF sh, of "100"] sh
  have "ledger_shaped (data ?s0) \<and>
     map_sum id fst (get_user_trusts (100) ?s0) =
       Inr [trust_record ''t0'' (-111) 100 ''Owner1'' 200 ''Member1'',
            trust_record ''t2'' (-333) 100 ''Owner1'' 201 ''Member2'']"
    by (auto simp: ts f)
  with open_holds [of ?d] show ?thesis by blast
qed

text \<open>
  Claim C7. A store opened on a path where no file exists holds the empty ledger: no
  group and no trust.
\<close>

theorem init_missing_empty:
  "\<exists>s. TrustStorage Missing = Inr s \<and>
     data s = JObj [(''groups'', JObj []), (''trusts'', JArr [])] \<and>
     groups_of (data s) = [] \<and>
     trusts_of (data s) = []"
  by (simp add: TrustStorage_def empty_ledger_def groups_of_def trusts_of_def)

lemma filter_key_notin:
  "k \<notin> fst ` set kvs \<Longrightarrow> filter (\<lambda>kv. fst kv = k) kvs = []"
  by (induction kvs) auto

lemma filter_key_update:
  "distinct (map fst kvs) \<Longrightarrow>
   filter (\<lambda>kv. fst kv = k) (AList.update k v kvs) = [(k, v)]"
  by (induction kvs) (auto simp: filter_key_notin)

lemma filter_other_update:
  "filter (\<lambda>kv. fst kv \<noteq> k) (AList.update k v kvs) = filter (\<lambda>kv. fst kv \<noteq> k) kvs"
  by (induction kvs) auto

lemma distinct_at_most_one:
  "distinct (map fst kvs) \<Longrightarrow> length (filter (\<lambda>kv. fst kv = k) kvs) \<le> 1"
  by (induction kvs) (auto simp: filter_key_notin)

lemma in_set_update:
  "x \<in> set (AList.update k v al) \<Longrightarrow> x = (k, v) \<or> x \<in> set al"
  by (induction al) (auto split: if_splits)

lemma add_group_result:
  assumes "ledger_shaped (data s)"
  shows "\<exists>s'. add_group now io g n ow own s = Inr s' \<and> ledger_shaped (data s') \<and>
           groups_of (data s') =
             AList.update (py_str g) (group_record now n ow own) (groups_of (data s)) \<and>
           trusts_of (data s') = trusts_of (data s) \<and>
           writes s' = Suc (writes s) \<and>
           data_file s' = (case io of SaveOk \<Rightarrow> Holds (data s') | SaveFails f \<Rightarrow> f)"
proof -
  let ?gs = "AList.update (py_str g) (group_record now n ow own) (groups_of (data s))"
  from add_group_shaped [OF assms] obtain d where
    d: "py_setitem (data s) ''groups'' (JObj ?gs) = Inr d"
    and r: "add_group now io g n ow own s = Inr (save_data io (s\<lparr>data := d\<rparr>))"
    by blast
  from assms have "distinct (map fst (groups_of (data s)))"
    and "list_all is_group (map snd (groups_of (data s)))"
    by (simp_all add: ledger_shaped_def)
  then have "distinct (map fst ?gs)" and "list_all is_group (map snd ?gs)"
    by (auto simp: distinct_update list_all_iff is_group_record dest!: in_set_update)
  from setitem_groups_shape [OF assms d this]
  have "ledger_shaped d" "groups_of d = ?gs" "trusts_of d = trusts_of (data s)" by simp_all
  with r show ?thesis
    by (cases io) (simp_all add: data_save_data)
qed

lemma add_trust_result:
  assumes "ledger_shaped (data s)"
  shows "\<exists>s'. add_trust now io g a an b bn s = Inr s' \<and> ledger_shaped (data s') \<and>
           groups_of (data s') = groups_of (data s) \<and>
           trusts_of (data s') =
             (if Some (g, a, b) \<in> edge_key ` set (trusts_of (data s)) then trusts_of (data s)
              else trusts_of (data s) @ [trust_record now g a an b bn]) \<and>
           Some (g, a, b) \<in> edge_key ` set (trusts_of (data s'))"
proof (cases "Some (g, a, b) \<in> edge_key ` set (trusts_of (data s))")
  case True
  with assms add_trust_found [OF assms True] show ?thesis by simp
next
  case False
  let ?r = "trust_record now g a an b bn"
  from add_trust_new [OF assms False] obtain d where
    d: "py_setitem (data s) ''trusts'' (JArr (trusts_of (data s) @ [?r])) = Inr d"
    and r: "add_trust now io g a an b bn s = Inr (save_data io (s\<lparr>data := d\<rparr>))"
    by blast
  have "list_all is_trust_edge (trusts_of (data s) @ [?r])"
    using assms by (simp add: ledger_shaped_def is_trust_edge_record)
  from setitem_trusts_shape [OF assms d this] r False show ?thesis
    by (simp add: data_save_data edge_key_record)
qed

lemma exec_shaped:
  "ledger_shaped (data s) \<Longrightarrow> \<exists>s'. exec c s = Inr s' \<and> ledger_shaped (data s')"
proof (cases c)
  case (AddGroup now io g n ow own)
  assume "ledger_shaped (data s)"
  from add_group_result [OF this] AddGroup show ?thesis by fastforce
next
  case (AddTrust now io g a an b bn)
  assume "ledger_shaped (data s)"
  from add_trust_result [OF this] AddTrust show ?thesis by fastforce
qed

lemma run_shaped:
  "ledger_shaped (data s) \<Longrightarrow> \<exists>s'. run cs s = Inr s' \<and> ledger_shaped (data s')"
proof (induction cs arbitrary: s)
  case Nil
  then show ?case by simp
next
  case (Cons c cs)
  from exec_shaped [OF Cons.prems] obtain s1 where
    "exec c s = Inr s1" "ledger_shaped (data s1)" by blast
  with Cons.IH [of s1] show ?case by simp
qed

lemma get_group_trusts_filter:
  assumes "ledger_shaped (data s)"
  shows "get_group_trusts g s =
    Inr (filter (\<lambda>t. int_field ''group_id'' t = Some g) (trusts_of (data s)), s)"
proof -
  from assms have t: "py_getitem (data s) ''trusts'' = Inr (JArr (trusts_of (data s)))"
    and e: "list_all is_trust_edge (trusts_of (data s))"
    by (simp_all add: ledger_shaped_def)
  from edges_have_field [OF e]
  have "list_all (\<lambda>t. int_field ''group_id'' t \<noteq> None) (trusts_of (data s))"
    by (rule conjunct1)
  then have "select_by ''group_id'' g (trusts_of (data s)) =
      Inr (filter (\<lambda>t. int_field ''group_id'' t = Some g) (trusts_of (data s)))"
    by (rule select_by_filter)
  with t show ?thesis by (simp add: get_group_trusts_def)
qed

lemma get_user_trusts_filter:
  assumes "ledger_shaped (data s)"
  shows "get_user_trusts u s =
    Inr (filter (\<lambda>t. int_field ''truster_id'' t = Some u) (trusts_of (data s)), s)"
proof -
  from assms have t: "py_getitem (data s) ''trusts'' = Inr (JArr (trusts_of (data s)))"
    and e: "list_all is_trust_edge (trusts_of (data s))"
    by (simp_all add: ledger_shaped_def)
  from edges_have_field [OF e]
  have "list_all (\<lambda>t. int_field ''truster_id'' t \<noteq> None) (trusts_of (data s))"
    by (rule conjunct2)
  then have "select_by ''truster_id'' u (trusts_of (data s)) =
      Inr (filter (\<lambda>t. int_field ''truster_id'' t = Some u) (trusts_of (data s)))"
    by (rule select_by_filter)
  with t show ?thesis by (simp add: get_user_trusts_def)
qed

lemma edge_key_group: "edge_key t = Some (g, a, b) \<Longrightarrow> int_field ''group_id'' t = Some g"
  by (auto simp: edge_key_def split: option.splits)

text \<open>
  Claim C3. \<^verbatim>\<open>add_group\<close> (the specification's \<^verbatim>\<open>upsert_group\<close>) called twice for one
  group_id on a ledger-shaped store leaves exactly one record under that group's key,
  and its name, owner_id, owner_name and time are those of the second call. After any
  sequence of calls the keys of the groups are distinct, so no group_id has more than
  one record.
\<close>

theorem add_group_last_write_wins:
  assumes "ledger_shaped (data s)"
  shows "(\<exists>s1 s2 r. add_group now1 io1 g n1 o1 on1 s = Inr s1 \<and>
            add_group now2 io2 g n2 o2 on2 s1 = Inr s2 \<and>
            map_of (groups_of (data s2)) (py_str g) = Some r \<and>
            filter (\<lambda>kv. fst kv = py_str g) (groups_of (data s2)) = [(py_str g, r)] \<and>
            r = group_record now2 n2 o2 on2 \<and>
            str_field ''name'' r = Some n2 \<and>
            int_field ''owner_id'' r = Some o2 \<and>
            str_field ''owner_name'' r = Some on2 \<and>
            str_field ''added_at'' r = Some now2) \<and>
         (\<exists>s'. run cs s = Inr s' \<and> distinct (map fst (groups_of (data s'))) \<and>
            length (filter (\<lambda>kv. fst kv = py_str i) (groups_of (data s'))) \<le> 1)"
proof
  let ?r = "group_record now2 n2 o2 on2"
  from add_group_result [OF assms, of now1 io1 g n1 o1 on1] obtain s1 where
    s1: "add_group now1 io1 g n1 o1 on1 s = Inr s1" "ledger_shaped (data s1)" by blast
  from add_group_result [OF s1(2), of now2 io2 g n2 o2 on2] obtain s2 where
    s2: "add_group now2 io2 g n2 o2 on2 s1 = Inr s2"
    and gs: "groups_of (data s2) = AList.update (py_str g) ?r (groups_of (data s1))"
    by blast
  from s1(2) have dist: "distinct (map fst (groups_of (data s1)))"
    by (simp add: ledger_shaped_def)
  have look: "map_of (groups_of (data s2)) (py_str g) = Some ?r"
    by (simp add: gs update_conv')
  have one: "filter (\<lambda>kv. fst kv = py_str g) (groups_of (data s2)) = [(py_str g, ?r)]"
    by (simp add: gs filter_key_update [OF dist])
  have flds: "str_field ''name'' ?r = Some n2 \<and> int_field ''owner_id'' ?r = Some o2 \<and>
      str_field ''owner_name'' ?r = Some on2 \<and> str_field ''added_at'' ?r = Some now2"
    by (simp add: group_record_def)
  from s1(1) s2 look one flds
  show "\<exists>s1 s2 r. add_group now1 io1 g n1 o1 on1 s = Inr s1 \<and>
            add_group now2 io2 g n2 o2 on2 s1 = Inr s2 \<and>
            map_of (groups_of (data s2)) (py_str g) = Some r \<and>
            filter (\<lambda>kv. fst kv = py_str g) (groups_of (data s2)) = [(py_str g, r)] \<and>
            r = group_record now2 n2 o2 on2 \<and>
            str_field ''name'' r = Some n2 \<and>
            int_field ''owner_id'' r = Some o2 \<and>
            str_field ''owner_name'' r = Some on2 \<and>
            str_field ''added_at'' r = Some now2"
    by (intro exI [of _ s1] exI [of _ s2] exI [of _ ?r]) blast
next
  from run_shaped [OF assms, of cs] obtain s' where
    r: "run cs s = Inr s'" and sh: "ledger_shaped (data s')" by blast
  from sh have dist: "distinct (map fst (groups_of (data s')))"
    by (simp add: ledger_shaped_def)
  from r dist distinct_at_most_one [OF dist, of "py_str i"]
  show "\<exists>s'. run cs s = Inr s' \<and> distinct (map fst (groups_of (data s'))) \<and>
            length (filter (\<lambda>kv. fst kv = py_str i) (groups_of (data s'))) \<le> 1"
    by blast
qed

lemma py_str_example: "py_str (-123456) = ''-123456''"
  by (simp add: py_str_def nat_digits.simps digit_char_def)

theorem add_group_last_write_wins_witness:
  "\<exists>s0. TrustStorage Missing = Inr s0 \<and> ledger_shaped (data s0) \<and>
     (\<exists>s1 s2. add_group ''t1'' SaveOk (-123456) ''Test Group'' 111111 ''Test Owner'' s0 = Inr s1 \<and>
       add_group ''t2'' SaveOk (-123456) ''Renamed'' 333333 ''New Owner'' s1 = Inr s2 \<and>
       filter (\<lambda>kv. fst kv = ''-123456'') (groups_of (data s2)) =
         [(''-123456'',
           JObj [(''name'', JStr ''Renamed''), (''owner_id'', JInt 333333),
                 (''owner_name'', JStr ''New Owner''), (''added_at'', JStr ''t2'')])])"
proof -
  let ?s0 = "\<lparr>data = empty_ledger, data_file = Missing, writes = 0\<rparr>"
  have sh: "ledger_shaped (data ?s0)" by (simp add: ledger_shaped_empty)
  from conjunct1 [OF add_group_last_write_wins [OF sh, of "''t1''" SaveOk "-123456"
      "''Test Group''" 111111 "''Test Owner''" "''t2''" SaveOk "''Renamed''" 333333
      "''New Owner''" "[]" 0]]
  obtain s1 s2 where
    "add_group ''t1'' SaveOk (-123456) ''Test Group'' 111111 ''Test Owner'' ?s0 = Inr s1"
    and "add_group ''t2'' SaveOk (-123456) ''Renamed'' 333333 ''New Owner'' s1 = Inr s2"
    and "filter (\<lambda>kv. fst kv = py_str (-123456)) (groups_of (data s2)) =
      [(py_str (-123456), group_record ''t2'' ''Renamed'' 333333 ''New Owner'')]"
    by blast
  then have "\<exists>s1 s2. add_group ''t1'' SaveOk (-123456) ''Test Group'' 111111 ''Test Owner'' ?s0 = Inr s1 \<and>
       add_group ''t2'' SaveOk (-123456) ''Renamed'' 333333 ''New Owner'' s1 = Inr s2 \<and>
       filter (\<lambda>kv. fst kv = ''-123456'') (groups_of (data s2)) =
         [(''-123456'',
           JObj [(''name'', JStr ''Renamed''), (''owner_id'', JInt 333333),
                 (''owner_name'', JStr ''New Owner''), (''added_at'', JStr ''t2'')])]"
    unfolding py_str_example group_record_def by blast
  with sh open_missing show ?thesis by blast
qed

text \<open>
  Claim C9. On a ledger-shaped store \<^verbatim>\<open>add_group\<close> touches one entry of the groups
  only: the trusts are the same list, the record of every other group_id is what it was,
  and the other entries keep their order. Both queries answer after the call as before
  it, so edges recorded under an earlier owner stay.
\<close>

theorem add_group_frame:
  assumes "ledger_shaped (data s)"
  shows "\<exists>s'. add_group now io g n ow own s = Inr s' \<and>
           trusts_of (data s') = trusts_of (data s) \<and>
           (\<forall>g'. g' \<noteq> g \<longrightarrow>
              map_of (groups_of (data s')) (py_str g') =
              map_of (groups_of (data s)) (py_str g')) \<and>
           filter (\<lambda>kv. fst kv \<noteq> py_str g) (groups_of (data s')) =
             filter (\<lambda>kv. fst kv \<noteq> py_str g) (groups_of (data s)) \<and>
           map_sum id fst (get_group_trusts h s') = map_sum id fst (get_group_trusts h s) \<and>
           map_sum id fst (get_user_trusts u s') = map_sum id fst (get_user_trusts u s)"
proof -
  from add_group_result [OF assms, of now io g n ow own] obtain s' where
    r: "add_group now io g n ow own s = Inr s'" and sh: "ledger_shaped (data s')"
    and gs: "groups_of (data s') =
      AList.update (py_str g) (group_record now n ow own) (groups_of (data s))"
    and ts: "trusts_of (data s') = trusts_of (data s)"
    by blast
  have other: "\<forall>g'. g' \<noteq> g \<longrightarrow>
      map_of (groups_of (data s')) (py_str g') = map_of (groups_of (data s)) (py_str g')"
    by (auto simp: gs update_conv' dest: py_str_inj)
  have rest: "filter (\<lambda>kv. fst kv \<noteq> py_str g) (groups_of (data s')) =
      filter (\<lambda>kv. fst kv \<noteq> py_str g) (groups_of (data s))"
    by (simp add: gs filter_other_update)
  have q1: "map_sum id fst (get_group_trusts h s') = map_sum id fst (get_group_trusts h s)"
    by (simp add: get_group_trusts_filter assms sh ts)
  have q2: "map_sum id fst (get_user_trusts u s') = map_sum id fst (get_user_trusts u s)"
    by (simp add: get_user_trusts_filter assms sh ts)
  from r ts other rest q1 q2 show ?thesis by blast
qed

theorem add_group_frame_witness:
  "\<exists>s0. TrustStorage (Holds (JObj
        [(''groups'', JObj [(''-111'', group_record ''t0'' ''G1'' 100 ''Owner1'')]),
         (''trusts'', JArr [trust_record ''t1'' (-111) 100 ''Owner1'' 200 ''Member1''])])) =
       Inr s0 \<and>
     ledger_shaped (data s0) \<and>
     (\<exists>s'. add_group ''t2'' SaveOk (-111) ''G1'' 300 ''Owner2'' s0 = Inr s' \<and>
         trusts_of (data s') = [trust_record ''t1'' (-111) 100 ''Owner1'' 200 ''Member1''])"
proof -
  let ?d = "JObj
      [(''groups'', JObj [(''-111'', group_record ''t0'' ''G1'' 100 ''Owner1'')]),
       (''trusts'', JArr [trust_record ''t1'' (-111) 100 ''Owner1'' 200 ''Member1''])]"
  let ?s0 = "\<lparr>data = ?d, data_file = Holds ?d, writes = 0\<rparr>"
  have sh: "ledger_shaped (data ?s0)"
    by (simp add: ledger_shaped_def groups_of_def trusts_of_def
        is_trust_edge_record is_group_record)
  have ts: "trusts_of (data ?s0) =
      [trust_record ''t1'' (-111) 100 ''Owner1'' 200 ''Member1'']"
    by (simp add: trusts_of_def)
  from add_group_frame [OF sh, of "''t2''" SaveOk "-111" "''G1''" 300 "''Owner2''" 0 0]
  obtain s' where "add_group ''t2'' SaveOk (-111) ''G1'' 300 ''Owner2'' ?s0 = Inr s'"
    and "trusts_of (data s') = trusts_of (data ?s0)"
    by blast
  with ts have "\<exists>s'. add_group ''t2'' SaveOk (-111) ''G1'' 300 ''Owner2'' ?s0 = Inr s' \<and>
         trusts_of (data s') = [trust_record ''t1'' (-111) 100 ''Owner1'' 200 ''Member1'']"
    by (intro exI [of _ s']) simp
  with sh open_holds [of ?d] show ?thesis by blast
qed

text \<open>
  Claim C10. \<^verbatim>\<open>add_trust\<close> never reads the groups: on two ledger-shaped stores with
  the same trusts and any groups it leaves the same trusts. For a group_id that has no
  group record it records the edge all the same, the group still has no record
  afterwards, and \<^verbatim>\<open>get_group_trusts\<close> for it returns a list that is not empty.
\<close>

theorem add_trust_ignores_groups:
  assumes "ledger_shaped (data s)" and "ledger_shaped (data s')"
    and "trusts_of (data s) = trusts_of (data s')"
  shows "map_sum id (\<lambda>x. trusts_of (data x)) (add_trust now io g a an b bn s) =
         map_sum id (\<lambda>x. trusts_of (data x)) (add_trust now io g a an b bn s') \<and>
         (map_of (groups_of (data s)) (py_str g) = None \<longrightarrow>
            (\<exists>s1 r. add_trust now io g a an b bn s = Inr s1 \<and>
               map_of (groups_of (data s1)) (py_str g) = None \<and>
               get_group_trusts g s1 = Inr (r, s1) \<and> r \<noteq> []))"
proof
  from add_trust_result [OF assms(1), of now io g a an b bn]
    add_trust_result [OF assms(2), of now io g a an b bn] assms(3)
  show "map_sum id (\<lambda>x. trusts_of (data x)) (add_trust now io g a an b bn s) =
        map_sum id (\<lambda>x. trusts_of (data x)) (add_trust now io g a an b bn s')"
    by auto
next
  show "map_of (groups_of (data s)) (py_str g) = None \<longrightarrow>
            (\<exists>s1 r. add_trust now io g a an b bn s = Inr s1 \<and>
               map_of (groups_of (data s1)) (py_str g) = None \<and>
               get_group_trusts g s1 = Inr (r, s1) \<and> r \<noteq> [])"
  proof
    assume none: "map_of (groups_of (data s)) (py_str g) = None"
    from add_trust_result [OF assms(1), of now io g a an b bn] obtain s1 where
      r: "add_trust now io g a an b bn s = Inr s1" and sh: "ledger_shaped (data s1)"
      and gs: "groups_of (data s1) = groups_of (data s)"
      and k: "Some (g, a, b) \<in> edge_key ` set (trusts_of (data s1))"
      by blast
    from k obtain t where t: "t \<in> set (trusts_of (data s1))" "edge_key t = Some (g, a, b)"
      by auto
    then have "t \<in> set (filter (\<lambda>t. int_field ''group_id'' t = Some g) (trusts_of (data s1)))"
      by (simp add: edge_key_group)
    then have ne: "filter (\<lambda>t. int_field ''group_id'' t = Some g) (trusts_of (data s1)) \<noteq> []"
      by (metis empty_iff empty_set)
    from r none gs ne get_group_trusts_filter [OF sh, of g]
    show "\<exists>s1 r. add_trust now io g a an b bn s = Inr s1 \<and>
               map_of (groups_of (data s1)) (py_str g) = None \<and>
               get_group_trusts g s1 = Inr (r, s1) \<and> r \<noteq> []"
      by auto
  qed
qed

theorem add_trust_ignores_groups_witness:
  "\<exists>s0 s0'. TrustStorage Missing = Inr s0 \<and>
     TrustStorage (Holds (JObj
        [(''groups'', JObj [(''-111'', group_record ''t0'' ''G1'' 100 ''Owner1'')]),
         (''trusts'', JArr [])])) = Inr s0' \<and>
     ledger_shaped (data s0) \<and> ledger_shaped (data s0') \<and>
     map_of (groups_of (data s0)) (py_str (-111)) = None \<and>
     map_sum id (\<lambda>x. trusts_of (data x))
       (add_trust ''t0'' SaveOk (-111) 100 ''Owner1'' 200 ''Member1'' s0) =
     map_sum id (\<lambda>x. trusts_of (data x))
       (add_trust ''t0'' SaveOk (-111) 100 ''Owner1'' 200 ''Member1'' s0') \<and>
     (\<exists>s1 r. add_trust ''t0'' SaveOk (-111) 100 ''Owner1'' 200 ''Member1'' s0 = Inr s1 \<and>
         map_of (groups_of (data s1)) (py_str (-111)) = None \<and>
         get_group_trusts (-111) s1 = Inr (r, s1) \<and> r \<noteq> [])"
proof -
  let ?d = "JObj [(''groups'', JObj [(''-111'', group_record ''t0'' ''G1'' 100 ''Owner1'')]),
       (''trusts'', JArr [])]"
  let ?s0 = "\<lparr>data = empty_ledger, data_file = Missing, writes = 0\<rparr>"
  let ?s0' = "\<lparr>data = ?d, data_file = Holds ?d, writes = 0\<rparr>"
  have sh: "ledger_shaped (data ?s0)" by (simp add: ledger_shaped_empty)
  have sh': "ledger_shaped (data ?s0')"
    by (simp add: ledger_shaped_def groups_of_def trusts_of_def is_group_record)
  have eq: "trusts_of (data ?s0) = trusts_of (data ?s0')"
    by (simp add: trusts_of_def empty_ledger_def)
  have none: "map_of (groups_of (data ?s0)) (py_str (-111)) = None"
    by (simp add: groups_of_empty)
  from add_trust_ignores_groups [OF sh sh' eq, of "''t0''" SaveOk "-111" 100 "''Owner1''" 200
      "''Member1''"] none sh sh'
  have "ledger_shaped (data ?s0) \<and> ledger_shaped (data ?s0') \<and>
     map_of (groups_of (data ?s0)) (py_str (-111)) = None \<and>
     map_sum id (\<lambda>x. trusts_of (data x))
       (add_trust ''t0'' SaveOk (-111) 100 ''Owner1'' 200 ''Member1'' ?s0) =
     map_sum id (\<lambda>x. trusts_of (data x))
       (add_trust ''t0'' SaveOk (-111) 100 ''Owner1'' 200 ''Member1'' ?s0') \<and>
     (\<exists>s1 r. add_trust ''t0'' SaveOk (-111) 100 ''Owner1'' 200 ''Member1'' ?s0 = Inr s1 \<and>
         map_of (groups_of (data s1)) (py_str (-111)) = None \<and>
         get_group_trusts (-111) s1 = Inr (r, s1) \<and> r \<noteq> [])"
    by blast
  with open_missing open_holds [of ?d] show ?thesis by blast
qed

lemma exec_synced:
  assumes "saved c" and "load_data (data_file s) = Inr (data s)" and "exec c s = Inr s'"
  shows "load_data (data_file s') = Inr (data s')"
proof (cases c)
  case (AddGroup now io g n ow own)
  with assms show ?thesis
    by (auto simp: add_group_def Let_def split: sum.splits)
next
  case (AddTrust now io g a an b bn)
  with assms show ?thesis
    by (auto simp: add_trust_def split: sum.splits if_splits)
qed

lemma run_synced:
  "list_all saved cs \<Longrightarrow> load_data (data_file s) = Inr (data s) \<Longrightarrow> run cs s = Inr s' \<Longrightarrow>
   load_data (data_file s') = Inr (data s')"
proof (induction cs arbitrary: s)
  case Nil
  then show ?case by simp
next
  case (Cons c cs)
  from Cons.prems(3) obtain s1 where e: "exec c s = Inr s1" and r: "run cs s1 = Inr s'"
    by (auto split: sum.splits)
  from Cons.prems(1) have "saved c" and rest: "list_all saved cs" by simp_all
  from exec_synced [OF this(1) Cons.prems(2) e] have "load_data (data_file s1) = Inr (data s1)" .
  from Cons.IH [OF rest this r] show ?case .
qed

lemma open_synced: "TrustStorage f = Inr s \<Longrightarrow> load_data (data_file s) = Inr (data s)"
  by (auto simp: TrustStorage_def split: sum.splits)

lemma synced_reopen:
  "load_data (data_file s) = Inr (data s) \<Longrightarrow>
   \<exists>s1. TrustStorage (data_file s) = Inr s1 \<and> data s1 = data s"
  by (simp add: TrustStorage_def)

lemma loadable_shaped:
  "loadable f \<Longrightarrow> \<exists>s. TrustStorage f = Inr s \<and> ledger_shaped (data s) \<and> data_file s = f"
  by (cases f) (simp_all add: TrustStorage_def ledger_shaped_empty)

text \<open>
  Claim C6. Start a store on any file and make any sequence of \<^verbatim>\<open>add_group\<close> and
  \<^verbatim>\<open>add_trust\<close> calls whose writes all go through. A fresh store opened on the file
  the session leaves holds the data of the first store: the same groups and the same
  trusts. When the file was loadable the session does not raise.
\<close>

theorem persistence_round_trip:
  assumes "list_all saved cs"
  shows "(\<forall>s. session f cs = Inr s \<longrightarrow>
            (\<exists>s1. TrustStorage (data_file s) = Inr s1 \<and>
               data s1 = data s \<and>
               groups_of (data s1) = groups_of (data s) \<and>
               trusts_of (data s1) = trusts_of (data s))) \<and>
         (loadable f \<longrightarrow> (\<exists>s. session f cs = Inr s))"
proof (intro conjI allI impI)
  fix s
  assume "session f cs = Inr s"
  then obtain s0 where o: "TrustStorage f = Inr s0" and r: "run cs s0 = Inr s"
    by (auto simp: session_def split: sum.splits)
  from run_synced [OF assms open_synced [OF o] r]
  have "load_data (data_file s) = Inr (data s)" .
  from synced_reopen [OF this] obtain s1 where
    "TrustStorage (data_file s) = Inr s1" "data s1 = data s" by blast
  then show "\<exists>s1. TrustStorage (data_file s) = Inr s1 \<and> data s1 = data s \<and>
      groups_of (data s1) = groups_of (data s) \<and> trusts_of (data s1) = trusts_of (data s)"
    by simp
next
  assume "loadable f"
  from loadable_shaped [OF this] obtain s0 where
    o: "TrustStorage f = Inr s0" and sh: "ledger_shaped (data s0)" by blast
  from run_shaped [OF sh, of cs] o show "\<exists>s. session f cs = Inr s"
    by (auto simp: session_def)
qed

theorem persistence_round_trip_witness:
  "list_all saved [AddGroup ''t0'' SaveOk (-123456) ''Test Group'' 111111 ''Owner'',
                   AddTrust ''t1'' SaveOk (-123456) 111111 ''Owner'' 222222 ''Member''] \<and>
   loadable Missing \<and>
   (\<exists>s s1. session Missing
              [AddGroup ''t0'' SaveOk (-123456) ''Test Group'' 111111 ''Owner'',
               AddTrust ''t1'' SaveOk (-123456) 111111 ''Owner'' 222222 ''Member''] = Inr s \<and>
        TrustStorage (data_file s) = Inr s1 \<and> data s1 = data s)"
proof -
  let ?cs = "[AddGroup ''t0'' SaveOk (-123456) ''Test Group'' 111111 ''Owner'',
              AddTrust ''t1'' SaveOk (-123456) 111111 ''Owner'' 222222 ''Member'']"
  have sv: "list_all saved ?cs" by simp
  have ld: "loadable Missing" by simp
  from persistence_round_trip [OF sv, of Missing] ld sv show ?thesis by blast
qed

lemma keys_update_decimal:
  "list_all is_decimal (map fst al) \<Longrightarrow> is_decimal k \<Longrightarrow>
   list_all is_decimal (map fst (AList.update k v al))"
  by (induction al) auto

lemma exec_asymmetric:
  assumes "ledger_shaped (data s)" and "asymmetric (data s)"
  shows "\<exists>s'. exec c s = Inr s' \<and> ledger_shaped (data s') \<and> asymmetric (data s')"
proof (cases c)
  case (AddGroup now io g n ow own)
  from add_group_result [OF assms(1), of now io g n ow own] obtain s' where
    "add_group now io g n ow own s = Inr s'" "ledger_shaped (data s')"
    "groups_of (data s') = AList.update (py_str g) (group_record now n ow own) (groups_of (data s))"
    "trusts_of (data s') = trusts_of (data s)"
    by blast
  with assms(2) AddGroup show ?thesis
    by (auto simp: asymmetric_def keys_update_decimal is_decimal_py_str)
next
  case (AddTrust now io g a an b bn)
  from add_trust_result [OF assms(1), of now io g a an b bn] obtain s' where
    r: "add_trust now io g a an b bn s = Inr s'" and sh: "ledger_shaped (data s')"
    and gs: "groups_of (data s') = groups_of (data s)"
    by blast
  from sh have "list_all is_trust_edge (trusts_of (data s'))" by (simp add: ledger_shaped_def)
  from edges_have_field [OF this]
  have "list_all (\<lambda>t. int_field ''group_id'' t \<noteq> None) (trusts_of (data s'))"
    by (rule conjunct1)
  with assms(2) gs have "asymmetric (data s')" by (simp add: asymmetric_def)
  with r sh AddTrust show ?thesis by simp
qed

lemma run_asymmetric:
  "ledger_shaped (data s) \<Longrightarrow> asymmetric (data s) \<Longrightarrow>
   \<exists>s'. run cs s = Inr s' \<and> ledger_shaped (data s') \<and> asymmetric (data s')"
proof (induction cs arbitrary: s)
  case Nil
  then show ?case by simp
next
  case (Cons c cs)
  from exec_asymmetric [OF Cons.prems, of c] obtain s1 where
    "exec c s = Inr s1" "ledger_shaped (data s1)" "asymmetric (data s1)" by blast
  with Cons.IH [of s1] show ?case by simp
qed

lemma asymmetric_empty: "asymmetric empty_ledger"
  by (simp add: asymmetric_def groups_of_empty trusts_of_empty)

lemma run_append:
  "run (cs @ ds) s = (case run cs s of Inl e \<Rightarrow> Inl e | Inr s' \<Rightarrow> run ds s')"
  by (induction cs arbitrary: s) (auto split: sum.splits)

text \<open>
  Claim C8, as amended. Open a store on no file, an unreadable file, or a ledger-shaped
  file whose groups are already keyed by decimal strings and whose edges carry an
  integer \<^verbatim>\<open>group_id\<close>. After any sequence of calls every key of the groups is the
  decimal form of an integer and every edge carries an integer \<^verbatim>\<open>group_id\<close>; when
  the writes went through, the same holds of the document in the file. A group added
  last is found under \<^verbatim>\<open>str(group_id)\<close>, an edge added last carries the integer
  \<^verbatim>\<open>group_id\<close> of the call. \<^verbatim>\<open>str(group_id)\<close> is a decimal string that reads back
  as \<^verbatim>\<open>group_id\<close>, with a minus sign before a negative id.
\<close>

theorem asymmetry_invariant:
  assumes "loadable f" and "load_data f = Inr d" and "asymmetric d"
  shows "(\<exists>s. session f cs = Inr s \<and>
            list_all is_decimal (map fst (groups_of (data s))) \<and>
            list_all (\<lambda>t. int_field ''group_id'' t \<noteq> None) (trusts_of (data s)) \<and>
            (list_all saved cs \<longrightarrow>
               (\<exists>d'. load_data (data_file s) = Inr d' \<and> asymmetric d'))) \<and>
         (\<exists>s. session f (cs @ [AddGroup now io g n ow own]) = Inr s \<and>
            map_of (groups_of (data s)) (py_str g) = Some (group_record now n ow own)) \<and>
         (\<exists>s t. session f (cs @ [AddTrust now io g a an b bn]) = Inr s \<and>
            t \<in> set (trusts_of (data s)) \<and> edge_key t = Some (g, a, b) \<and>
            int_field ''group_id'' t = Some g) \<and>
         py_int (py_str g) = g \<and> is_decimal (py_str g) \<and>
         (g < 0 \<longrightarrow> py_str g = CHR ''-'' # py_str (- g))"
proof (intro conjI)
  from loadable_shaped [OF assms(1)] obtain s0 where
    o: "TrustStorage f = Inr s0" and sh0: "ledger_shaped (data s0)" by blast
  from o assms(2) have "data s0 = d" by (auto simp: TrustStorage_def)
  with assms(3) have as0: "asymmetric (data s0)" by simp
  from run_asymmetric [OF sh0 as0, of cs] obtain s where
    r: "run cs s0 = Inr s" and sh: "ledger_shaped (data s)"
    and as: "asymmetric (data s)" by blast
  have ses: "\<And>ds. session f (cs @ ds) = run ds s"
    by (simp add: session_def o run_append r)
  have sync: "list_all saved cs \<longrightarrow> (\<exists>d'. load_data (data_file s) = Inr d' \<and> asymmetric d')"
  proof
    assume sv: "list_all saved cs"
    from run_synced [OF sv open_synced [OF o] r] as
    show "\<exists>d'. load_data (data_file s) = Inr d' \<and> asymmetric d'" by simp
  qed
  from ses [of "[]"] as sync
  show "\<exists>s. session f cs = Inr s \<and>
            list_all is_decimal (map fst (groups_of (data s))) \<and>
            list_all (\<lambda>t. int_field ''group_id'' t \<noteq> None) (trusts_of (data s)) \<and>
            (list_all saved cs \<longrightarrow>
               (\<exists>d'. load_data (data_file s) = Inr d' \<and> asymmetric d'))"
    unfolding asymmetric_def by (intro exI [of _ s]) simp
  from add_group_result [OF sh, of now io g n ow own] obtain s1 where
    a: "add_group now io g n ow own s = Inr s1"
    and gs: "groups_of (data s1) =
      AList.update (py_str g) (group_record now n ow own) (groups_of (data s))"
    by blast
  have "session f (cs @ [AddGroup now io g n ow own]) = Inr s1"
    by (simp add: ses a)
  moreover have "map_of (groups_of (data s1)) (py_str g) = Some (group_record now n ow own)"
    by (simp add: gs update_conv')
  ultimately
  show "\<exists>s. session f (cs @ [AddGroup now io g n ow own]) = Inr s \<and>
            map_of (groups_of (data s)) (py_str g) = Some (group_record now n ow own)"
    by blast
  from add_trust_result [OF sh, of now io g a an b bn] obtain s2 where
    b: "add_trust now io g a an b bn s = Inr s2"
    and k: "Some (g, a, b) \<in> edge_key ` set (trusts_of (data s2))"
    by blast
  from k obtain t where t: "t \<in> set (trusts_of (data s2))" "edge_key t = Some (g, a, b)"
    by auto
  have "session f (cs @ [AddTrust now io g a an b bn]) = Inr s2"
    by (simp add: ses b)
  with t edge_key_group [OF t(2)]
  show "\<exists>s t. session f (cs @ [AddTrust now io g a an b bn]) = Inr s \<and>
            t \<in> set (trusts_of (data s)) \<and> edge_key t = Some (g, a, b) \<and>
            int_field ''group_id'' t = Some g"
    by blast
  show "py_int (py_str g) = g" by (rule py_int_py_str)
  show "is_decimal (py_str g)" by (rule is_decimal_py_str)
  show "g < 0 \<longrightarrow> py_str g = CHR ''-'' # py_str (- g)"
    by (simp add: py_str_def)
qed

theorem asymmetry_invariant_witness:
  "loadable Missing \<and> load_data Missing = Inr empty_ledger \<and> asymmetric empty_ledger \<and>
   (\<exists>s. session Missing
           ([AddTrust ''t0'' SaveOk (-123456) 111111 ''Owner'' 222222 ''Member''] @
            [AddGroup ''t1'' SaveOk (-123456) ''Test Group'' 111111 ''Test Owner'']) = Inr s \<and>
        map_of (groups_of (data s)) ''-123456'' =
          Some (group_record ''t1'' ''Test Group'' 111111 ''Test Owner'')) \<and>
   py_int ''-123456'' = -123456 \<and> is_decimal ''-123456'' \<and>
   ''-123456'' = CHR ''-'' # py_str 123456"
proof -
  have ld: "loadable Missing" by simp
  have lo: "load_data Missing = Inr empty_ledger" by simp
  have as: "asymmetric empty_ledger" by (rule asymmetric_empty)
  note th = asymmetry_invariant [OF ld lo as,
      of "[AddTrust ''t0'' SaveOk (-123456) 111111 ''Owner'' 222222 ''Member'']"
         "''t1''" SaveOk "-123456" "''Test Group''" 111111 "''Test Owner''"]
  from conjunct1 [OF conjunct2 [OF th]]
  have a: "\<exists>s. session Missing
           ([AddTrust ''t0'' SaveOk (-123456) 111111 ''Owner'' 222222 ''Member''] @
            [AddGroup ''t1'' SaveOk (-123456) ''Test Group'' 111111 ''Test Owner'']) = Inr s \<and>
        map_of (groups_of (data s)) ''-123456'' =
          Some (group_record ''t1'' ''Test Group'' 111111 ''Test Owner'')"
    unfolding py_str_example .
  note rest = conjunct2 [OF conjunct2 [OF conjunct2 [OF th]]]
  from conjunct1 [OF rest]
  have b: "py_int ''-123456'' = -123456" unfolding py_str_example .
  from conjunct1 [OF conjunct2 [OF rest]]
  have c: "is_decimal ''-123456''" unfolding py_str_example .
  from conjunct2 [OF conjunct2 [OF rest]]
  have "py_str (-123456) = CHR ''-'' # py_str 123456" by simp
  then have e: "''-123456'' = CHR ''-'' # py_str 123456"
    unfolding py_str_example .
  from ld lo as a b c e show ?thesis by blast
qed

text \<open>
  Claim C8 as written fails for a store opened on a ledger-shaped file that a hand has
  keyed otherwise: the key \<^verbatim>\<open>abc\<close> is loaded as it is and stays through
  \<^verbatim>\<open>add_group\<close>, beside the decimal key of the new group.
\<close>

theorem asymmetry_counterexample:
  "loadable (Holds (JObj [(''groups'', JObj [(''abc'', group_record ''t0'' ''G'' 1 ''O'')]),
                          (''trusts'', JArr [])])) \<and>
   session (Holds (JObj [(''groups'', JObj [(''abc'', group_record ''t0'' ''G'' 1 ''O'')]),
                         (''trusts'', JArr [])]))
     [AddGroup ''t1'' SaveOk 5 ''H'' 2 ''P''] =
   Inr \<lparr>data = JObj [(''groups'', JObj [(''abc'', group_record ''t0'' ''G'' 1 ''O''),
                                        (''5'', group_record ''t1'' ''H'' 2 ''P'')]),
                     (''trusts'', JArr [])],
        data_file = Holds (JObj [(''groups'', JObj [(''abc'', group_record ''t0'' ''G'' 1 ''O''),
                                        (''5'', group_record ''t1'' ''H'' 2 ''P'')]),
                     (''trusts'', JArr [])]),
        writes = 1\<rparr> \<and>
   \<not> is_decimal ''abc''"
  by (simp add: session_def TrustStorage_def add_group_def ledger_shaped_def groups_of_def
      trusts_of_def is_group_record py_str_def nat_digits.simps digit_char_def
      digits_ok_def is_digit_def Let_def)

text \<open>
  When \<^verbatim>\<open>exists()\<close> raises, nothing catches it: the constructor raises.
\<close>

lemma open_inaccessible: "TrustStorage Inaccessible = Inl OSError"
  by (simp add: TrustStorage_def)

text \<open>
  Claim C2, as amended. Where \<^verbatim>\<open>exists()\<close> answers, \<^verbatim>\<open>TrustStorage(path)\<close> returns a
  store and leaves the file as it was, unwritten: with no file, or a file on which
  \<^verbatim>\<open>open\<close> or \<^verbatim>\<open>json.load\<close> raises, the data is the empty ledger; with a file that
  parses, the data is the parsed value as it is. When the file is loadable (none,
  unreadable, or a ledger-shaped document) the data is ledger-shaped and every sequence
  of calls and both queries succeed on it.
\<close>

theorem load_data_fallback:
  "TrustStorage Missing = Inr \<lparr>data = empty_ledger, data_file = Missing, writes = 0\<rparr> \<and>
   TrustStorage Unreadable = Inr \<lparr>data = empty_ledger, data_file = Unreadable, writes = 0\<rparr> \<and>
   TrustStorage (Holds j) = Inr \<lparr>data = j, data_file = Holds j, writes = 0\<rparr> \<and>
   (loadable f \<longrightarrow>
      (\<exists>s. TrustStorage f = Inr s \<and> data_file s = f \<and> writes s = 0 \<and>
         ledger_shaped (data s) \<and>
         (\<exists>s'. run cs s = Inr s') \<and>
         (\<exists>r. get_group_trusts g s = Inr (r, s)) \<and>
         (\<exists>r. get_user_trusts u s = Inr (r, s))))"
proof (intro conjI impI)
  show "TrustStorage Missing = Inr \<lparr>data = empty_ledger, data_file = Missing, writes = 0\<rparr>"
    and "TrustStorage Unreadable =
      Inr \<lparr>data = empty_ledger, data_file = Unreadable, writes = 0\<rparr>"
    and "TrustStorage (Holds j) = Inr \<lparr>data = j, data_file = Holds j, writes = 0\<rparr>"
    by (simp_all add: TrustStorage_def)
next
  assume "loadable f"
  from loadable_shaped [OF this] obtain s where
    o: "TrustStorage f = Inr s" and sh: "ledger_shaped (data s)" and fl: "data_file s = f"
    by blast
  from o have w: "writes s = 0" by (auto simp: TrustStorage_def split: sum.splits)
  from run_shaped [OF sh, of cs] have r: "\<exists>s'. run cs s = Inr s'" by blast
  from get_group_trusts_filter [OF sh, of g]
  have q1: "\<exists>r. get_group_trusts g s = Inr (r, s)" by blast
  from get_user_trusts_filter [OF sh, of u]
  have q2: "\<exists>r. get_user_trusts u s = Inr (r, s)" by blast
  from o fl w sh r q1 q2
  show "\<exists>s. TrustStorage f = Inr s \<and> data_file s = f \<and> writes s = 0 \<and>
         ledger_shaped (data s) \<and>
         (\<exists>s'. run cs s = Inr s') \<and>
         (\<exists>r. get_group_trusts g s = Inr (r, s)) \<and>
         (\<exists>r. get_user_trusts u s = Inr (r, s))"
    by blast
qed

theorem load_data_fallback_witness:
  "loadable Unreadable \<and>
   (\<exists>s. TrustStorage Unreadable = Inr s \<and> data s = empty_ledger \<and>
      data_file s = Unreadable \<and>
      (\<exists>s'. run [AddGroup ''t0'' SaveOk (-123456) ''Test Group'' 111111 ''Test Owner''] s =
         Inr s'))"
proof -
  have ld: "loadable Unreadable" by simp
  note th = load_data_fallback [of JNull Unreadable
      "[AddGroup ''t0'' SaveOk (-123456) ''Test Group'' 111111 ''Test Owner'']" 0 0]
  from conjunct2 [OF conjunct2 [OF conjunct2 [OF th]]] ld
  obtain s where "TrustStorage Unreadable = Inr s" "data_file s = Unreadable"
    "\<exists>s'. run [AddGroup ''t0'' SaveOk (-123456) ''Test Group'' 111111 ''Test Owner''] s = Inr s'"
    by blast
  moreover from this(1) have "data s = empty_ledger" by (auto simp: TrustStorage_def)
  ultimately show ?thesis using ld by blast
qed

text \<open>
  Claim C2 as written fails on a file that parses but is not a ledger: a file holding
  \<^verbatim>\<open>[]\<close> is loaded as the list it denotes, and then \<^verbatim>\<open>self.data["groups"]\<close> and
  \<^verbatim>\<open>self.data["trusts"]\<close> raise \<^verbatim>\<open>TypeError\<close> in every operation.
\<close>

theorem load_unshaped_counterexample:
  "TrustStorage (Holds (JArr [])) =
     Inr \<lparr>data = JArr [], data_file = Holds (JArr []), writes = 0\<rparr> \<and>
   add_group ''t0'' SaveOk (-123456) ''Test Group'' 111111 ''Test Owner''
     \<lparr>data = JArr [], data_file = Holds (JArr []), writes = 0\<rparr> = Inl TypeError \<and>
   add_trust ''t0'' SaveOk (-123456) 111111 ''Owner'' 222222 ''Member''
     \<lparr>data = JArr [], data_file = Holds (JArr []), writes = 0\<rparr> = Inl TypeError \<and>
   get_group_trusts (-123456)
     \<lparr>data = JArr [], data_file = Holds (JArr []), writes = 0\<rparr> = Inl TypeError \<and>
   get_user_trusts 111111
     \<lparr>data = JArr [], data_file = Holds (JArr []), writes = 0\<rparr> = Inl TypeError"
  by (simp add: TrustStorage_def add_group_def add_trust_def get_group_trusts_def
      get_user_trusts_def)

end
